theory Spec2Isabelle
  imports Complex_Main
begin

section \<open>Photoluminescence: the numerical core of EmissionSpectrum.py\<close>

text \<open>
  The program works on numpy arrays of double-precision floats. Here a float is a
  \<^typ>\<open>real\<close> and a complex float a \<^typ>\<open>complex\<close>: the theorems below are statements
  about the arithmetic the code writes down, carried out exactly, not about rounding.
  The one exception is the grid constructor \<open>IV\<close>, whose number of samples depends on
  rounding: it is given in exact arithmetic and, as \<open>IV_f64\<close>, in float64.
  A one-dimensional array is a list. An exception raised by Python or numpy is a value
  of \<open>py_error\<close>, returned on the left of a sum.
\<close>

datatype py_error = IndexError | ValueError | ZeroDivisionError

subsection \<open>Unit conversions\<close>

text \<open>\<^verbatim>\<open>return 4.13566*freqs\<close>, on an array of frequencies.\<close>

definition FreqToEnergy :: "real list \<Rightarrow> real list" where
  "FreqToEnergy freqs = map (\<lambda>f. 4.13566 * f) freqs"

text \<open>\<^verbatim>\<open>return t/658.2119 if reverse == False else t*658.2119\<close>.\<close>

definition TimeScaling :: "real \<Rightarrow> bool \<Rightarrow> real" where
  "TimeScaling t reverse = (if reverse = False then t / 658.2119 else t * 658.2119)"

subsection \<open>Trapezoidal\<close>

text \<open>
  \<^verbatim>\<open>div = iv[1] - iv[0]\<close> raises IndexError on a grid shorter than two. With
  \<open>equally_spaced\<close> the code returns
  \<^verbatim>\<open>(div/2)*(np.sum(integrand[1:-1]) + integrand[0] + integrand[-1])\<close>:
  the slice \<open>[1:-1]\<close> is \<open>butlast (tl integrand)\<close>, and \<open>integrand[0]\<close> raises IndexError on an
  empty integrand. Otherwise it sums
  \<^verbatim>\<open>((iv[i+1] - iv[i])/2)*(integrand[i+1] + integrand[i])\<close> over \<open>range(len(iv)-1)\<close>,
  and \<open>integrand[i+1]\<close> raises IndexError when the integrand is shorter than the grid.
  The grid is real; the integrand is real or complex, and the spacing multiplies it as a
  real scalar. The source's variable \<open>div\<close> is \<open>spacing\<close> here.
\<close>

definition Trapezoidal :: "'a::real_vector list \<Rightarrow> real list \<Rightarrow> bool \<Rightarrow> py_error + 'a" where
  "Trapezoidal integrand iv equally_spaced =
     (if length iv < 2 then Inl IndexError
      else let spacing = iv ! 1 - iv ! 0 in
        if equally_spaced then
          (if integrand = [] then Inl IndexError
           else Inr ((spacing / 2) *\<^sub>R
                  (sum_list (butlast (tl integrand)) + hd integrand + last integrand)))
        else
          (if length integrand < length iv then Inl IndexError
           else Inr (sum_list (map (\<lambda>i. ((iv ! (i + 1) - iv ! i) / 2) *\<^sub>R
                                        (integrand ! (i + 1) + integrand ! i))
                                [0..<length iv - 1]))))"

text \<open>
  The grid of \<open>N\<close> equally spaced points on \<open>[a, b]\<close>, both ends included, on which the
  integration properties are stated.
\<close>

definition uniform_grid :: "real \<Rightarrow> real \<Rightarrow> nat \<Rightarrow> real list" where
  "uniform_grid a b N = map (\<lambda>j. a + real j * ((b - a) / real (N - 1))) [0..<N]"

subsection \<open>Elementwise operations on arrays\<close>

text \<open>
  numpy's binary operation on two arrays along their leading axis: entry by entry when
  the lengths agree, an array of length one broadcast against the other, and ValueError
  (operands could not be broadcast together) for any other pair of lengths.
\<close>

definition broadcast2 :: "('a \<Rightarrow> 'b \<Rightarrow> 'c) \<Rightarrow> 'a list \<Rightarrow> 'b list \<Rightarrow> py_error + 'c list" where
  "broadcast2 f xs ys =
     (if length xs = length ys then Inr (map2 f xs ys)
      else if length xs = 1 then Inr (map (\<lambda>y. f (hd xs) y) ys)
      else if length ys = 1 then Inr (map (\<lambda>x. f x (hd ys)) xs)
      else Inl ValueError)"

text \<open>A list comprehension whose body may raise: the first exception ends it.\<close>

fun collect :: "(py_error + 'a) list \<Rightarrow> py_error + 'a list" where
  "collect [] = Inr []"
| "collect (Inl e # rs) = Inl e"
| "collect (Inr v # rs) = (case collect rs of Inl e \<Rightarrow> Inl e | Inr vs \<Rightarrow> Inr (v # vs))"

subsection \<open>PartialHR\<close>

text \<open>
  \<^verbatim>\<open>return 2*np.pi*freqs*(qk**2)*0.166/(2*1.05457)\<close>, where the product of the two
  arrays is numpy's elementwise product.
\<close>

definition HR_factor :: "real \<Rightarrow> real \<Rightarrow> real" where
  "HR_factor f q = 2 * pi * f * (q ^ 2) * 0.166 / (2 * 1.05457)"

definition PartialHR :: "real list \<Rightarrow> real list \<Rightarrow> py_error + real list" where
  "PartialHR freqs qk = broadcast2 HR_factor freqs qk"

subsection \<open>IV\<close>

text \<open>
  \<open>np.arange(start, stop, step)\<close> read in exact arithmetic: \<open>ceil((stop - start)/step)\<close>
  entries (none when that is not positive), the \<open>i\<close>-th being \<open>start + i*step\<close>. numpy
  computes the count and the entries in float64; that computation is \<open>arange_f64\<close> below,
  and it can differ from this one in the number of entries and in their values. The step
  is never zero where \<open>IV\<close> calls it.
\<close>

definition arange :: "real \<Rightarrow> real \<Rightarrow> real \<Rightarrow> real list" where
  "arange start stop step =
     map (\<lambda>i. start + real i * step) [0..<nat \<lceil>(stop - start) / step\<rceil>]"

text \<open>
  \<^verbatim>\<open>div = (2*np.pi)/(2*rv_high); return np.arange(iv_low, iv_high, div)\<close>.
  The arguments are Python numbers, as \<open>CalculateSpectrum\<close> passes them, so a zero
  \<open>rv_high\<close> makes the division raise ZeroDivisionError. Nothing else is checked.
  \<open>IV\<close> is this text in exact arithmetic, with the real number \<open>\<pi>\<close>; \<open>IV_f64\<close> below is
  the same text as Python and numpy evaluate it, in float64.
\<close>

definition IV :: "real \<Rightarrow> real \<Rightarrow> real \<Rightarrow> py_error + real list" where
  "IV iv_low iv_high rv_high =
     (if 2 * rv_high = 0 then Inl ZeroDivisionError
      else Inr (arange iv_low iv_high ((2 * pi) / (2 * rv_high))))"

subsection \<open>IV in float64\<close>

text \<open>
  A float64 operation returns the double nearest to its exact result, ties going to the
  even significand. \<open>f64\<close> is that rounding for results in the normal range: with
  \<open>2\<^sup>e \<le> |x| < 2\<^sup>e\<^sup>+\<^sup>1\<close> the doubles around \<open>x\<close> are the multiples of \<open>2\<^sup>e\<^sup>-\<^sup>5\<^sup>2\<close>. Overflow and
  subnormal results are not modelled; none occurs in what is evaluated below.
\<close>

definition rne :: "real \<Rightarrow> int" where
  "rne x = (let f = \<lfloor>x\<rfloor>
            in if x - of_int f < 1 / 2 then f
               else if 1 / 2 < x - of_int f then f + 1
               else if even f then f else f + 1)"

definition f64 :: "real \<Rightarrow> real" where
  "f64 x = (if x = 0 then 0
            else let e = \<lfloor>log 2 \<bar>x\<bar>\<rfloor>; u = 2 powr (of_int e - 52)
                 in of_int (rne (x / u)) * u)"

text \<open>\<open>np.pi\<close>, the double nearest to \<open>\<pi>\<close>: \<open>3.141592653589793\<close>.\<close>

definition np_pi :: real where
  "np_pi = 884279719003555 / 2 ^ 48"



subsection \<open>LuminescenceIntensity\<close>

text \<open>
  The boolean mask \<^verbatim>\<open>(E_meV >= (zpl -500)) & (E_meV <= (zpl + 100))\<close> is built from
  \<open>E_meV\<close> and applied first to \<open>A_E\<close>, then to \<open>E_meV\<close>; numpy raises IndexError when the
  mask and the array it indexes differ in length. The weighted curve \<^verbatim>\<open>(E_meV**3)*A_E\<close>
  is divided by its \<open>Trapezoidal\<close> integral (with the default \<open>equally_spaced = True\<close>),
  whose IndexError on a window of fewer than two points propagates. Dividing by a zero
  integral does not raise in numpy (the entries become nan or inf); the reals have no
  such values, so the theorems about the quotient assume a nonzero integral.
\<close>

definition in_window :: "real \<Rightarrow> real \<Rightarrow> bool" where
  "in_window zpl e = (e \<ge> zpl - 500 \<and> e \<le> zpl + 100)"

definition window_E :: "real list \<Rightarrow> real \<Rightarrow> real list" where
  "window_E E_meV zpl = filter (in_window zpl) E_meV"

definition window_A :: "real list \<Rightarrow> 'a list \<Rightarrow> real \<Rightarrow> 'a list" where
  "window_A E_meV A_E zpl = map snd (filter (\<lambda>(e, a). in_window zpl e) (zip E_meV A_E))"

definition weighted :: "real list \<Rightarrow> 'a::real_normed_field list \<Rightarrow> 'a list" where
  "weighted E A = map2 (\<lambda>e a. (e ^ 3) *\<^sub>R a) E A"

definition LuminescenceIntensity ::
  "real list \<Rightarrow> 'a::real_normed_field list \<Rightarrow> real \<Rightarrow> py_error + (real list \<times> 'a list)" where
  "LuminescenceIntensity E_meV A_E zpl =
     (if length A_E \<noteq> length E_meV then Inl IndexError
      else let A' = window_A E_meV A_E zpl; E' = window_E E_meV zpl in
        case Trapezoidal (weighted E' A') E' True of
          Inl err \<Rightarrow> Inl err
        | Inr T \<Rightarrow> Inr (E', map (\<lambda>x. x / T) (weighted E' A')))"

subsection \<open>ConfigCoordinates\<close>

text \<open>
  Positions and eigenvector blocks are arrays of shape \<open>(atoms, 3)\<close>, as the loaders
  produce them: a list of rows, each row a triple. \<open>modes\<close> has shape
  \<open>(modes, atoms, 3)\<close>: a list of such blocks.
\<close>

type_synonym vec3 = "real \<times> real \<times> real"

fun vsub :: "vec3 \<Rightarrow> vec3 \<Rightarrow> vec3" where
  "vsub (a, b, c) (x, y, z) = (a - x, b - y, c - z)"

fun vmul :: "vec3 \<Rightarrow> vec3 \<Rightarrow> vec3" where
  "vmul (a, b, c) (x, y, z) = (a * x, b * y, c * z)"

fun vscale :: "real \<Rightarrow> vec3 \<Rightarrow> vec3" where
  "vscale m (x, y, z) = (m * x, m * y, m * z)"

fun vsum :: "vec3 \<Rightarrow> real" where
  "vsum (x, y, z) = x + y + z"

text \<open>
  \<^verbatim>\<open>np.sum(mR_diff*modes[i,:,:])\<close>: the product of the \<open>(len(masses), 3)\<close> array with one
  \<open>(atoms, 3)\<close> block follows numpy's broadcasting on the row count. When \<open>masses\<close> is empty,
  \<open>mR_diff\<close> is \<open>np.array([])\<close> of shape \<open>(0,)\<close>, which no block with three columns
  broadcasts against.
\<close>

definition project :: "vec3 list \<Rightarrow> vec3 list \<Rightarrow> py_error + real" where
  "project mR_diff block =
     (if mR_diff = [] then Inl ValueError
      else case broadcast2 vmul mR_diff block of
             Inl e \<Rightarrow> Inl e
           | Inr p \<Rightarrow> Inr (sum_list (map vsum p)))"

text \<open>
  \<^verbatim>\<open>
  masses = np.sqrt(masses)
  R_diff = R_es - R_gs
  mR_diff = np.array([masses[i]*R_diff[i,:] for i in range(len(masses))])
  qk = np.array([np.sum(mR_diff*modes[i,:,:]) for i in range(modes.shape[0])])
  \<close>
  \<open>R_diff[i,:]\<close> raises IndexError at the first \<open>i\<close> past the rows of \<open>R_diff\<close>; rows
  of \<open>R_diff\<close> past \<open>len(masses)\<close> are never read.
\<close>

definition ConfigCoordinates ::
  "real list \<Rightarrow> vec3 list \<Rightarrow> vec3 list \<Rightarrow> vec3 list list \<Rightarrow> py_error + real list" where
  "ConfigCoordinates masses R_es R_gs modes =
     (let ms = map sqrt masses in
      case broadcast2 vsub R_es R_gs of
        Inl e \<Rightarrow> Inl e
      | Inr R_diff \<Rightarrow>
          if length R_diff < length ms then Inl IndexError
          else let mR_diff = map (\<lambda>i. vscale (ms ! i) (R_diff ! i)) [0..<length ms] in
            collect (map (project mR_diff) modes))"

subsection \<open>CalculateSpectrum, up to the Huang-Rhys factors\<close>

text \<open>Python's \<open>int\<close> of a float drops the fractional part.\<close>

definition py_int :: "real \<Rightarrow> int" where
  "py_int x = (if 0 \<le> x then \<lfloor>x\<rfloor> else \<lceil>x\<rceil>)"

text \<open>
  \<^verbatim>\<open>
  freqs = freqs[:int(freqs.shape[0]/2)]
  modes = modes[:int(modes.shape[0]/2),...]
  Ek = pl.FreqToEnergy(freqs)
  qk = pl.ConfigCoordinates(masses, R_es, R_gs, modes)
  Sk = pl.PartialHR(freqs, qk)
  \<close>
  on the masses, frequencies and eigenvectors that \<open>ReadPhononBands\<close> returned and the two
  geometries. The result is \<open>(Ek, qk, Sk)\<close>, or the first exception.
\<close>

definition CalculateSpectrum_HR ::
  "real list \<Rightarrow> real list \<Rightarrow> vec3 list list \<Rightarrow> vec3 list \<Rightarrow> vec3 list
     \<Rightarrow> py_error + (real list \<times> real list \<times> real list)" where
  "CalculateSpectrum_HR masses freqs0 modes0 R_es R_gs =
     (let freqs = take (nat (py_int (real (length freqs0) / 2))) freqs0;
          modes = take (nat (py_int (real (length modes0) / 2))) modes0;
          Ek = FreqToEnergy freqs
      in case ConfigCoordinates masses R_es R_gs modes of
           Inl e \<Rightarrow> Inl e
         | Inr qk \<Rightarrow>
             (case PartialHR freqs qk of
                Inl e \<Rightarrow> Inl e
              | Inr Sk \<Rightarrow> Inr (Ek, qk, Sk)))"

subsection \<open>Fourier and InverseFourier\<close>

text \<open>
  \<open>np.fft.fftfreq(n, d)\<close> fills an integer array with \<open>0, ..., N - 1\<close> for
  \<open>N = (n-1)//2 + 1\<close>, followed by \<open>-(n//2), ..., -1\<close>, and multiplies it by
  \<open>val = 1.0/(n*d)\<close>. It is called here with \<open>n \<ge> 2\<close> only. A zero spacing \<open>d\<close> gives
  infinite and nan entries in numpy, which the reals do not have: the theorems about
  the transforms assume a positive spacing.
\<close>

definition fftfreq :: "nat \<Rightarrow> real \<Rightarrow> real list" where
  "fftfreq n d =
     (let val = 1 / (real n * d); N = (n - 1) div 2 + 1
      in map (\<lambda>r. real_of_int r * val) (map int [0..<N] @ [- int (n div 2)..- 1]))"

text \<open>
  \<open>np.argsort\<close>: the indices that put the array in ascending order. Equal entries are
  kept in their order here; the frequencies sorted below are pairwise distinct, so the
  order of equal entries plays no role.
\<close>

definition argsort :: "real list \<Rightarrow> nat list" where
  "argsort xs = sort_key (\<lambda>i. xs ! i) [0..<length xs]"

text \<open>
  \<open>a[idx]\<close> for an array of indices: the entries of \<open>a\<close> at those indices, IndexError when
  one of them is out of range.
\<close>

definition fancy_index :: "'a list \<Rightarrow> nat list \<Rightarrow> py_error + 'a list" where
  "fancy_index a idx =
     (if list_all (\<lambda>i. i < length a) idx then Inr (map (\<lambda>i. a ! i) idx) else Inl IndexError)"

text \<open>
  \<open>np.fft.fft\<close> and \<open>np.fft.ifft\<close> compute the discrete Fourier transform
  \<open>A\<^sub>k = \<Sum>\<^sub>m a\<^sub>m exp(-2\<pi>i mk/n)\<close> and its inverse \<open>a\<^sub>m = (1/n) \<Sum>\<^sub>k A\<^sub>k exp(2\<pi>i mk/n)\<close>;
  \<open>cis t\<close> is \<open>exp(i t)\<close>. Both raise ValueError on an empty array.
\<close>

definition fft :: "complex list \<Rightarrow> complex list" where
  "fft a = (let n = length a
            in map (\<lambda>k. \<Sum>m<n. a ! m * cis (- (2 * pi * real m * real k / real n))) [0..<n])"

definition ifft :: "complex list \<Rightarrow> complex list" where
  "ifft A = (let n = length A
             in map (\<lambda>m. (1 / of_nat n) *
                          (\<Sum>k<n. A ! k * cis (2 * pi * real m * real k / real n))) [0..<n])"

text \<open>
  \<^verbatim>\<open>
  div = iv[1] - iv[0]
  rv = 2*np.pi*np.fft.fftfreq(len(iv),div)
  sort = np.argsort(rv)
  rv = rv[sort]
  DFT = np.fft.fft(function)[sort]
  DFT = div*DFT*np.exp(-1j*rv*iv[0])
  return rv, DFT
  \<close>
  \<open>iv[1]\<close> raises IndexError on a grid shorter than two. The source's \<open>div\<close> is
  \<open>spacing\<close> and its \<open>sort\<close> is \<open>srt\<close> here.
\<close>

definition Fourier :: "real list \<Rightarrow> complex list \<Rightarrow> py_error + (real list \<times> complex list)" where
  "Fourier iv function =
     (if length iv < 2 then Inl IndexError
      else let spacing = iv ! 1 - iv ! 0;
               rv0 = map (\<lambda>x. 2 * pi * x) (fftfreq (length iv) spacing);
               srt = argsort rv0;
               rv = map (\<lambda>i. rv0 ! i) srt
           in if function = [] then Inl ValueError
              else case fancy_index (fft function) srt of
                     Inl e \<Rightarrow> Inl e
                   | Inr DFT \<Rightarrow>
                       Inr (rv, map2 (\<lambda>D r. of_real spacing * D *
                                             exp (- \<i> * of_real r * of_real (iv ! 0))) DFT rv))"

text \<open>
  \<^verbatim>\<open>
  div = iv[1] - iv[0]
  rv = 2*np.pi*np.fft.fftfreq(len(iv),div)
  sort = np.argsort(rv)
  rv = rv[sort]
  IDFT = np.fft.ifft(function)[sort]
  IDFT = div*IDFT*np.exp(1j*rv*iv[0])
  return rv, IDFT
  \<close>
\<close>

definition InverseFourier ::
  "real list \<Rightarrow> complex list \<Rightarrow> py_error + (real list \<times> complex list)" where
  "InverseFourier iv function =
     (if length iv < 2 then Inl IndexError
      else let spacing = iv ! 1 - iv ! 0;
               rv0 = map (\<lambda>x. 2 * pi * x) (fftfreq (length iv) spacing);
               srt = argsort rv0;
               rv = map (\<lambda>i. rv0 ! i) srt
           in if function = [] then Inl ValueError
              else case fancy_index (ifft function) srt of
                     Inl e \<Rightarrow> Inl e
                   | Inr IDFT \<Rightarrow>
                       Inr (rv, map2 (\<lambda>D r. of_real spacing * D *
                                             exp (\<i> * of_real r * of_real (iv ! 0))) IDFT rv))"

text \<open>
  The round trip: Fourier on the grid \<open>iv\<close>, then InverseFourier on the dual grid and the
  transform that Fourier returned.
\<close>

definition round_trip :: "real list \<Rightarrow> complex list \<Rightarrow> py_error + (real list \<times> complex list)" where
  "round_trip iv f =
     (case Fourier iv f of
        Inl e \<Rightarrow> Inl e
      | Inr (rv, DFT) \<Rightarrow> InverseFourier rv DFT)"

text \<open>The grid of \<open>n\<close> samples with spacing \<open>d\<close> whose sample \<open>n div 2\<close> is the origin.\<close>

definition centred_grid :: "nat \<Rightarrow> real \<Rightarrow> real list" where
  "centred_grid n d = map (\<lambda>j. (real j - real (n div 2)) * d) [0..<n]"

subsection \<open>Roots of unity\<close>

text \<open>
  The factor \<open>exp(2\<pi>i q/n)\<close> of the discrete transforms, with an integer \<open>q\<close>: the notion
  in which the lemmas about \<open>fft\<close> and \<open>ifft\<close> are stated.
\<close>

definition unity_root :: "nat \<Rightarrow> int \<Rightarrow> complex" where
  "unity_root n q = cis (2 * pi * real_of_int q / real n)"

section \<open>Theorems\<close>

subsection \<open>Auxiliary facts\<close>




lemma arange_empty: "(stop - start) / step \<le> 0 \<Longrightarrow> arange start stop step = []"
  by (simp add: arange_def ceiling_le_zero)


text \<open>
  \<open>arange\<close> is what numpy's way of filling the array gives when no operation rounds: the
  definition of \<open>arange_f64\<close> with every \<open>f64\<close> removed.
\<close>

lemma arange_unrounded:
  "arange start stop step =
     (let len = nat \<lceil>((stop - start) / step)\<rceil>;
          next = start + step;
          delta = next - start
      in map (\<lambda>i. if i = 0 then start
                  else if i = 1 then next
                  else start + real i * delta) [0..<len])"
  unfolding arange_def Let_def by (rule map_cong[OF refl]) auto

lemma sum_list_divide_const:
  "sum_list (map (\<lambda>x. x / T) xs) = sum_list xs / (T::'a::real_normed_field)"
  by (induction xs) (simp_all add: add_divide_distrib)

lemma Trapezoidal_divide:
  fixes w :: "'a::real_normed_field list"
  assumes "Trapezoidal w iv True = Inr T"
  shows "Trapezoidal (map (\<lambda>x. x / c) w) iv True = Inr (T / c)"
proof -
  from assms have len: "\<not> length iv < 2" and ne: "w \<noteq> []"
    by (auto simp: Trapezoidal_def Let_def split: if_splits)
  from assms len ne have T: "T = ((iv ! 1 - iv ! 0) / 2) *\<^sub>R
                  (sum_list (butlast (tl w)) + hd w + last w)"
    by (simp add: Trapezoidal_def Let_def)
  have "sum_list (butlast (tl (map (\<lambda>x. x / c) w))) = sum_list (butlast (tl w)) / c"
    by (simp only: map_tl[symmetric] map_butlast[symmetric] sum_list_divide_const)
  moreover have "hd (map (\<lambda>x. x / c) w) = hd w / c" using ne by (simp add: hd_map)
  moreover have "last (map (\<lambda>x. x / c) w) = last w / c" using ne by (simp add: last_map)
  ultimately have "sum_list (butlast (tl (map (\<lambda>x. x / c) w))) + hd (map (\<lambda>x. x / c) w)
       + last (map (\<lambda>x. x / c) w) = (sum_list (butlast (tl w)) + hd w + last w) / c"
    by (simp add: add_divide_distrib)
  then have "Trapezoidal (map (\<lambda>x. x / c) w) iv True
      = Inr (((iv ! 1 - iv ! 0) / 2) *\<^sub>R ((sum_list (butlast (tl w)) + hd w + last w) / c))"
    using len ne by (simp add: Trapezoidal_def Let_def)
  then show ?thesis by (simp only: T divide_inverse mult_scaleR_left)
qed

lemma window_lengths:
  "length A_E = length E_meV \<Longrightarrow> length (window_A E_meV A_E zpl) = length (window_E E_meV zpl)"
proof (induction E_meV arbitrary: A_E)
  case Nil then show ?case by (simp add: window_A_def window_E_def)
next
  case (Cons e es)
  then obtain a as where A: "A_E = a # as" "length as = length es" by (cases A_E) auto
  with Cons.IH[of as] show ?case by (simp add: window_A_def window_E_def)
qed

lemma py_int_half: "nat (py_int (real n / 2)) = n div 2"
proof -
  have "\<lfloor>real n / 2\<rfloor> = int (n div 2)"
    by (metis floor_divide_of_nat_eq of_nat_numeral)
  then show ?thesis by (simp add: py_int_def)
qed

lemma collect_all_Inr:
  "(\<forall>r \<in> set rs. \<exists>v. r = Inr v) \<Longrightarrow> \<exists>vs. collect rs = Inr vs \<and> length vs = length rs"
proof (induction rs)
  case Nil then show ?case by simp
next
  case (Cons r rs)
  then obtain v where "r = Inr v" by auto
  moreover from Cons obtain vs where "collect rs = Inr vs" "length vs = length rs" by auto
  ultimately show ?case by simp
qed

lemma collect_first_Inl:
  "rs \<noteq> [] \<Longrightarrow> hd rs = Inl e \<Longrightarrow> collect rs = Inl e"
  by (cases rs) simp_all

lemma project_cases:
  "project mR block =
     (if mR = [] \<or> (length mR \<noteq> length block \<and> length mR \<noteq> 1 \<and> length block \<noteq> 1)
      then Inl ValueError
      else Inr (sum_list (map vsum (case broadcast2 vmul mR block of Inr p \<Rightarrow> p))))"
  by (auto simp: project_def broadcast2_def)


text \<open>
  What the two branches of \<open>Trapezoidal\<close> return for the constant \<open>c\<close> on \<open>N \<ge> 2\<close> equally
  spaced points of \<open>[a, b]\<close>: the equally spaced branch gives \<open>c (b - a) N / (2 (N - 1))\<close>,
  which is \<open>c (b - a)\<close> for \<open>N = 2\<close> only, and the other branch gives \<open>c (b - a)\<close>.
\<close>

lemma butlast_replicate_eq: "butlast (replicate n x) = replicate (n - 1) x"
  by (induction n) (auto simp: gr0_conv_Suc)

lemma sum_list_butlast_tl_replicate:
  "sum_list (butlast (tl (replicate N (c::real)))) = real (N - 2) * c"
proof -
  have "butlast (tl (replicate N c)) = replicate (N - 2) c"
    by (cases N) (simp_all add: butlast_replicate_eq)
  then show ?thesis by (simp add: sum_list_replicate)
qed

lemma Trapezoidal_constant_uniform:
  assumes "2 \<le> N"
  shows "Trapezoidal (replicate N c) (uniform_grid a b N) True
           = Inr (c * (b - a) * real N / (2 * real (N - 1)))"
proof -
  have len: "length (uniform_grid a b N) = N" by (simp add: uniform_grid_def)
  have sp: "uniform_grid a b N ! 1 - uniform_grid a b N ! 0 = (b - a) / real (N - 1)"
    using assms by (simp add: uniform_grid_def)
  have ne: "replicate N c \<noteq> []" using assms by auto
  have hl: "hd (replicate N c) = c" "last (replicate N c) = c"
    using assms by auto
  have s: "sum_list (butlast (tl (replicate N c))) + hd (replicate N c) + last (replicate N c)
             = real N * c"
    unfolding sum_list_butlast_tl_replicate hl using assms by (simp add: algebra_simps)
  have "Trapezoidal (replicate N c) (uniform_grid a b N) True
          = Inr ((((b - a) / real (N - 1)) / 2) * (real N * c))"
    unfolding Trapezoidal_def Let_def len using assms ne sp s by simp
  then show ?thesis by (simp add: field_simps)
qed

lemma uniform_grid_nth:
  "j < N \<Longrightarrow> uniform_grid a b N ! j = a + real j * ((b - a) / real (N - 1))"
  by (simp add: uniform_grid_def)

lemma Trapezoidal_constant_uniform_unequal:
  assumes "2 \<le> N"
  shows "Trapezoidal (replicate N c) (uniform_grid a b N) False = Inr (c * (b - a))"
proof -
  have len: "length (uniform_grid a b N) = N" by (simp add: uniform_grid_def)
  have piece: "((uniform_grid a b N ! (i + 1) - uniform_grid a b N ! i) / 2)
               *\<^sub>R (replicate N c ! (i + 1) + replicate N c ! i) = (b - a) / real (N - 1) * c"
    if "i < N - 1" for i
  proof -
    define h where "h = (b - a) / real (N - 1)"
    have i: "i + 1 < N" "i < N" using that by simp_all
    have "uniform_grid a b N ! (i + 1) = a + real (i + 1) * h"
      and "uniform_grid a b N ! i = a + real i * h"
      unfolding h_def using uniform_grid_nth[OF i(1)] uniform_grid_nth[OF i(2)] by blast+
    then have "uniform_grid a b N ! (i + 1) - uniform_grid a b N ! i = h"
      by (simp add: algebra_simps)
    moreover have "replicate N c ! (i + 1) + replicate N c ! i = 2 * c" using that by simp
    ultimately show ?thesis by (simp add: h_def)
  qed
  have "sum_list (map (\<lambda>i. ((uniform_grid a b N ! (i + 1) - uniform_grid a b N ! i) / 2)
               *\<^sub>R (replicate N c ! (i + 1) + replicate N c ! i)) [0..<N - 1])
        = sum_list (map (\<lambda>i. (b - a) / real (N - 1) * c) [0..<N - 1])"
  proof (rule arg_cong[where f = sum_list], rule map_cong[OF refl])
    fix i assume "i \<in> set [0..<N - 1]"
    then have "i < N - 1" by simp
    then show "((uniform_grid a b N ! (i + 1) - uniform_grid a b N ! i) / 2)
               *\<^sub>R (replicate N c ! (i + 1) + replicate N c ! i) = (b - a) / real (N - 1) * c"
      by (rule piece)
  qed
  also have "\<dots> = real (N - 1) * ((b - a) / real (N - 1) * c)"
    by (simp add: sum_list_triv)
  also have "\<dots> = c * (b - a)" using assms by simp
  finally show ?thesis
    using assms by (simp add: Trapezoidal_def Let_def len)
qed

text \<open>Evaluating \<open>f64\<close> at a given real, and \<open>IV_f64\<close> at \<open>IV(1, 1.3, 10*np.pi)\<close>.\<close>

lemma rne_near:
  assumes "\<bar>y - of_int m\<bar> < 1 / 2"
  shows "rne y = m"
proof (cases "of_int m \<le> y")
  case True
  then have "\<lfloor>y\<rfloor> = m" using assms by (intro floor_unique) auto
  then show ?thesis using assms True by (simp add: rne_def)
next
  case False
  then have "\<lfloor>y\<rfloor> = m - 1" using assms by (intro floor_unique) auto
  then show ?thesis using assms False by (auto simp: rne_def Let_def)
qed

lemma f64_eqI:
  assumes "2 powr of_int e \<le> \<bar>x\<bar>" "\<bar>x\<bar> < 2 powr (of_int e + 1)"
    and "u = 2 powr (of_int e - 52)" "\<bar>x / u - of_int m\<bar> < 1 / 2"
  shows "f64 x = of_int m * u"
proof -
  have x: "x \<noteq> 0" using assms(1) powr_gt_zero[of 2 "of_int e"] by auto
  then have "0 < \<bar>x\<bar>" by simp
  then have "\<lfloor>log 2 \<bar>x\<bar>\<rfloor> = e"
    using assms(1,2) by (simp add: floor_log_eq_powr_iff)
  then show ?thesis
    using x assms(3) rne_near[OF assms(4)] by (simp add: f64_def Let_def)
qed

lemma f64_pos_exp:
  assumes "2 ^ a \<le> \<bar>x\<bar>" "\<bar>x\<bar> < 2 * 2 ^ a" "\<bar>x * 2 ^ 52 / 2 ^ a - of_int m\<bar> < 1 / 2"
  shows "f64 x = of_int m * 2 ^ a / 2 ^ 52"
proof -
  have p: "2 powr of_int (int a) = (2::real) ^ a" by (simp add: powr_realpow)
  have u: "(2::real) ^ a / 2 ^ 52 = 2 powr (of_int (int a) - 52)"
    by (simp add: powr_diff powr_realpow)
  have "f64 x = of_int m * (2 ^ a / 2 ^ 52)"
  proof (rule f64_eqI[where e = "int a"])
    show "2 powr of_int (int a) \<le> \<bar>x\<bar>" using assms(1) by (simp only: p)
    have "2 powr (of_int (int a) + 1) = 2 * (2::real) ^ a"
      by (simp add: powr_add powr_realpow)
    then show "\<bar>x\<bar> < 2 powr (of_int (int a) + 1)" using assms(2) by (simp only:)
    show "(2::real) ^ a / 2 ^ 52 = 2 powr (of_int (int a) - 52)" by (rule u)
    show "\<bar>x / (2 ^ a / 2 ^ 52) - of_int m\<bar> < 1 / 2" using assms(3) by simp
  qed
  then show ?thesis by simp
qed


text \<open>The argument \<open>10*np.pi\<close> is itself a double: the product is exact.\<close>

lemma f64_ten_pi: "f64 (10 * np_pi) = 10 * np_pi"
  using f64_pos_exp[where a = 4 and m = 8842797190035550 and x = "10 * np_pi"]
  by (simp add: np_pi_def)















subsection \<open>The discrete transforms on a uniform grid\<close>

lemma fftfreq_2: "d \<noteq> 0 \<Longrightarrow> fftfreq (Suc (Suc 0)) d = [0, - 1 / (2 * d)]"
  by (simp add: fftfreq_def upto.simps upt_rec)

lemma sum2: "(\<Sum>m<Suc (Suc 0). g m) = g 0 + (g 1 :: complex)"
  by simp

lemma cis_minus_pi: "cis (- pi) = - 1"
  by (simp add: complex_eq_iff)

lemma fft_2: "fft [a, b] = [a + b, a - b]"
  by (simp add: fft_def upt_rec cis_minus_pi)

lemma ifft_2: "ifft [a, b] = [(a + b) / 2, (a - b) / 2]"
  by (simp add: ifft_def upt_rec field_simps)

lemma argsort_2: "y < x \<Longrightarrow> argsort [x, y] = [1, 0]"
  by (simp add: argsort_def upt_rec)

lemma Fourier_example: "Fourier [0, 1] [1, 0] = Inr ([- pi, 0], [1, 1])"
  by (simp add: Fourier_def Let_def fftfreq_2 argsort_2 fft_2 fancy_index_def)

lemma exp_ipi: "exp (\<i> * complex_of_real pi) = - 1"
  by (metis cis_conv_exp cis_pi)

lemma InverseFourier_example: "InverseFourier [- pi, 0] [1, 1] = Inr ([- 1, 0], [0, of_real pi])"
  by (simp add: InverseFourier_def Let_def fftfreq_2 argsort_2 ifft_2 fancy_index_def exp_ipi)

lemma argsort_unique:
  assumes "set ys = {..<length xs}" "distinct ys" "sorted (map (\<lambda>i. xs ! i) ys)" "distinct xs"
  shows "argsort xs = ys"
proof -
  let ?f = "\<lambda>i. xs ! i"
  let ?s = "sort_key ?f [0..<length xs]"
  have inj: "inj_on ?f {..<length xs}"
    using assms(4) by (auto simp: inj_on_def distinct_conv_nth)
  have set_s: "set ?s = {..<length xs}" by auto
  have "map ?f ?s = map ?f ys"
  proof (rule sorted_distinct_set_unique)
    show "sorted (map ?f ?s)" by (rule sorted_sort_key)
    show "distinct (map ?f ?s)" using inj set_s by (simp add: distinct_map)
    show "sorted (map ?f ys)" by (rule assms(3))
    show "distinct (map ?f ys)" using inj assms(1,2) by (simp add: distinct_map)
    show "set (map ?f ?s) = set (map ?f ys)" using set_s assms(1) by simp
  qed
  moreover have "inj_on ?f (set ?s \<union> set ys)" using inj set_s assms(1) by simp
  ultimately have "?s = ys" by (simp only: inj_on_map_eq_map)
  then show ?thesis by (simp add: argsort_def)
qed

lemma fftfreq_ints:
  assumes "0 < n"
  shows "map int [0..<(n - 1) div 2 + 1] @ [- int (n div 2)..- 1]
         = map (\<lambda>k. if k < (n - 1) div 2 + 1 then int k else int k - int n) [0..<n]"
proof (rule nth_equalityI)
  have N: "(n - 1) div 2 + 1 + n div 2 = n" using assms by presburger
  show len: "length (map int [0..<(n - 1) div 2 + 1] @ [- int (n div 2)..- 1])
        = length (map (\<lambda>k. if k < (n - 1) div 2 + 1 then int k else int k - int n) [0..<n])"
    using N by simp
  fix i assume "i < length (map int [0..<(n - 1) div 2 + 1] @ [- int (n div 2)..- 1])"
  then have i: "i < n" using len by simp
  show "(map int [0..<(n - 1) div 2 + 1] @ [- int (n div 2)..- 1]) ! i
        = map (\<lambda>k. if k < (n - 1) div 2 + 1 then int k else int k - int n) [0..<n] ! i"
  proof (cases "i < (n - 1) div 2 + 1")
    case True
    then show ?thesis using i by (simp add: nth_append)
  next
    case False
    then have "- int (n div 2) + int (i - ((n - 1) div 2 + 1)) \<le> - 1" using i N by linarith
    then have "[- int (n div 2)..- 1] ! (i - ((n - 1) div 2 + 1))
                 = - int (n div 2) + int (i - ((n - 1) div 2 + 1))"
      by (rule nth_upto)
    also have "\<dots> = int i - int n" using False N by linarith
    finally show ?thesis using False i by (simp add: nth_append)
  qed
qed

lemma length_fftfreq: "0 < n \<Longrightarrow> length (fftfreq n d) = n"
  unfolding fftfreq_def Let_def by (simp only: fftfreq_ints) simp

lemma fftfreq_nth:
  assumes "0 < n" "k < n"
  shows "fftfreq n d ! k
         = real_of_int (if k < (n - 1) div 2 + 1 then int k else int k - int n) * (1 / (real n * d))"
  unfolding fftfreq_def Let_def using assms by (simp only: fftfreq_ints) simp

lemma rv0_nth:
  assumes "0 < n" "k < n"
  shows "map (\<lambda>x. 2 * pi * x) (fftfreq n d) ! k
         = 2 * pi * (if k < (n - 1) div 2 + 1 then real k else real k - real n) / (real n * d)"
  using assms by (simp add: length_fftfreq fftfreq_nth)

lemma rotation_nth:
  assumes "m < n" "0 < n"
  shows "([(n - 1) div 2 + 1..<n] @ [0..<(n - 1) div 2 + 1]) ! m
         = (if m < n div 2 then m + ((n - 1) div 2 + 1) else m - n div 2)"
proof -
  have N: "(n - 1) div 2 + 1 + n div 2 = n" using assms(2) by presburger
  then have len: "length [(n - 1) div 2 + 1..<n] = n div 2" by simp
  show ?thesis
  proof (cases "m < n div 2")
    case True
    then have "m + ((n - 1) div 2 + 1) < n" using N by linarith
    then show ?thesis using True len by (simp add: nth_append add.commute)
  next
    case False
    then have "m - n div 2 < (n - 1) div 2 + 1" using assms(1) N by linarith
    then have "[0..<(n - 1) div 2 + 1] ! (m - n div 2) = m - n div 2"
      by (metis add_0 nth_upt)
    then show ?thesis using False len by (simp only: nth_append if_False)
  qed
qed

lemma sorted_frequencies:
  assumes "0 < n" "0 < d"
  shows "map (\<lambda>i. map (\<lambda>x. 2 * pi * x) (fftfreq n d) ! i)
             ([(n - 1) div 2 + 1..<n] @ [0..<(n - 1) div 2 + 1])
         = map (\<lambda>m. 2 * pi * (real m - real (n div 2)) / (real n * d)) [0..<n]"
proof (rule nth_equalityI)
  have N: "(n - 1) div 2 + 1 + n div 2 = n" using assms(1) by presburger
  show "length (map (\<lambda>i. map (\<lambda>x. 2 * pi * x) (fftfreq n d) ! i)
             ([(n - 1) div 2 + 1..<n] @ [0..<(n - 1) div 2 + 1]))
        = length (map (\<lambda>m. 2 * pi * (real m - real (n div 2)) / (real n * d)) [0..<n])"
    using N by simp
  fix m assume "m < length (map (\<lambda>i. map (\<lambda>x. 2 * pi * x) (fftfreq n d) ! i)
             ([(n - 1) div 2 + 1..<n] @ [0..<(n - 1) div 2 + 1]))"
  then have m: "m < n" using N by simp
  define k where "k = (if m < n div 2 then m + ((n - 1) div 2 + 1) else m - n div 2)"
  have k: "k < n" using m N by (auto simp: k_def)
  have z: "(if k < (n - 1) div 2 + 1 then real k else real k - real n) = real m - real (n div 2)"
  proof (cases "m < n div 2")
    case True
    then have "k = m + ((n - 1) div 2 + 1)" by (simp add: k_def)
    moreover have "real n = real ((n - 1) div 2 + 1) + real (n div 2)"
      using N by (metis of_nat_add)
    ultimately show ?thesis by simp
  next
    case False
    then have "k = m - n div 2" "k < (n - 1) div 2 + 1" using m N by (auto simp: k_def)
    then show ?thesis using False by (simp add: of_nat_diff)
  qed
  have len: "m < length ([(n - 1) div 2 + 1..<n] @ [0..<(n - 1) div 2 + 1])" using m N by simp
  show "map (\<lambda>i. map (\<lambda>x. 2 * pi * x) (fftfreq n d) ! i)
             ([(n - 1) div 2 + 1..<n] @ [0..<(n - 1) div 2 + 1]) ! m
        = map (\<lambda>m. 2 * pi * (real m - real (n div 2)) / (real n * d)) [0..<n] ! m"
    unfolding nth_map[OF len] rotation_nth[OF m assms(1)] k_def[symmetric]
    using m by (simp only: rv0_nth[OF assms(1) k] z) simp
qed

lemma distinct_frequencies:
  assumes "0 < n" "0 < d"
  shows "distinct (map (\<lambda>x. 2 * pi * x) (fftfreq n d))"
proof -
  have c: "2 * pi / (real n * d) \<noteq> 0" using assms by simp
  have "map (\<lambda>x. 2 * pi * x) (fftfreq n d) ! i \<noteq> map (\<lambda>x. 2 * pi * x) (fftfreq n d) ! j"
    if "i < n" "j < n" "i \<noteq> j" for i j
  proof -
    have "(if i < (n - 1) div 2 + 1 then real i else real i - real n)
          \<noteq> (if j < (n - 1) div 2 + 1 then real j else real j - real n)"
      using that by (auto simp: of_nat_diff) 
    then show ?thesis
      unfolding rv0_nth[OF assms(1) that(1)] rv0_nth[OF assms(1) that(2)]
      using assms by simp
  qed
  then show ?thesis using assms(1) by (simp add: distinct_conv_nth length_fftfreq)
qed

lemma argsort_frequencies:
  assumes "0 < n" "0 < d"
  shows "argsort (map (\<lambda>x. 2 * pi * x) (fftfreq n d))
         = [(n - 1) div 2 + 1..<n] @ [0..<(n - 1) div 2 + 1]"
proof (rule argsort_unique)
  have N: "(n - 1) div 2 + 1 \<le> n" using assms(1) by presburger
  show "set ([(n - 1) div 2 + 1..<n] @ [0..<(n - 1) div 2 + 1])
        = {..<length (map (\<lambda>x. 2 * pi * x) (fftfreq n d))}"
    using N assms(1) by (auto simp: length_fftfreq)
  show "distinct ([(n - 1) div 2 + 1..<n] @ [0..<(n - 1) div 2 + 1])" by auto
  show "distinct (map (\<lambda>x. 2 * pi * x) (fftfreq n d))" by (rule distinct_frequencies[OF assms])
  have "2 * pi * (real i - real (n div 2)) / (real n * d)
        \<le> 2 * pi * (real j - real (n div 2)) / (real n * d)" if "i \<le> j" for i j
  proof (rule divide_right_mono)
    show "2 * pi * (real i - real (n div 2)) \<le> 2 * pi * (real j - real (n div 2))"
      using that by simp
    show "0 \<le> real n * d" using assms by simp
  qed
  then have "sorted (map (\<lambda>m. 2 * pi * (real m - real (n div 2)) / (real n * d)) [0..<n])"
    by (simp add: sorted_iff_nth_mono del: times_divide_eq_right)
  then show "sorted (map (\<lambda>i. map (\<lambda>x. 2 * pi * x) (fftfreq n d) ! i)
             ([(n - 1) div 2 + 1..<n] @ [0..<(n - 1) div 2 + 1]))"
    by (simp only: sorted_frequencies[OF assms])
qed

lemma unity_root_0: "unity_root n 0 = 1"
  by (simp add: unity_root_def)

lemma unity_root_add: "unity_root n (a + b) = unity_root n a * unity_root n b"
  by (simp add: unity_root_def cis_mult add_divide_distrib distrib_left)

lemma unity_root_multiple: 
  assumes "0 < n" shows "unity_root n (int n * t) = 1"
proof -
  have "2 * pi * real_of_int (int n * t) / real n = 2 * pi * real_of_int t"
    using assms by simp
  then show ?thesis unfolding unity_root_def by (simp only: cis_multiple_2pi Ints_of_int)
qed

lemma unity_root_period: "0 < n \<Longrightarrow> unity_root n (q + int n * t) = unity_root n q"
  by (simp add: unity_root_add unity_root_multiple)

lemma unity_root_eq_1:
  assumes "0 < n" "unity_root n q = 1"
  shows "int n dvd q"
proof -
  from assms(2) have "cos (2 * pi * real_of_int q / real n) = 1"
    by (simp add: unity_root_def complex_eq_iff)
  then obtain t :: int where "2 * pi * real_of_int q / real n = real_of_int t * 2 * pi"
    using cos_one_2pi_int by blast
  then have "pi * (2 * (real_of_int q / real n)) = pi * (2 * real_of_int t)"
    by (simp add: algebra_simps)
  then have "2 * (real_of_int q / real n) = 2 * real_of_int t"
    using pi_neq_zero mult_left_cancel by blast
  then have "real_of_int q / real n = real_of_int t" by simp
  then have "real_of_int q = real_of_int (t * int n)" using assms(1) by (simp add: field_simps)
  then have "q = t * int n" by (simp only: of_int_eq_iff)
  then show ?thesis by simp
qed

lemma unity_root_power: "unity_root n q ^ m = unity_root n (int m * q)"
  by (simp add: unity_root_def DeMoivre mult.assoc mult.left_commute)

lemma unity_root_sum:
  assumes "0 < n"
  shows "(\<Sum>m<n. unity_root n (int m * q)) = (if int n dvd q then of_nat n else 0)"
proof (cases "int n dvd q")
  case True
  then obtain t where "q = int n * t" by (auto simp: dvd_def)
  then have "unity_root n (int m * q) = 1" for m
    using unity_root_multiple[OF assms, of "int m * t"] by (simp add: mult.left_commute)
  then show ?thesis using True by simp
next
  case False
  then have ne: "unity_root n q \<noteq> 1" using unity_root_eq_1[OF assms] by blast
  have "unity_root n q ^ n = 1"
    using unity_root_multiple[OF assms, of q] by (simp add: unity_root_power)
  then have "(\<Sum>m<n. unity_root n q ^ m) = 0"
    using ne by (simp add: geometric_sum)
  then show ?thesis using False by (simp add: unity_root_power)
qed

lemma fft_nth:
  assumes "k < length a"
  shows "fft a ! k = (\<Sum>m<length a. a ! m * unity_root (length a) (- (int m * int k)))"
  using assms by (simp add: fft_def Let_def unity_root_def mult.assoc)

lemma ifft_nth:
  assumes "m < length A"
  shows "ifft A ! m = (1 / of_nat (length A)) *
            (\<Sum>k<length A. A ! k * unity_root (length A) (int m * int k))"
  using assms by (simp add: ifft_def Let_def unity_root_def mult.assoc)

lemma exp_i_real: "exp (\<i> * of_real r * of_real t) = cis (r * t)"
  by (simp add: cis_conv_exp mult.assoc)

lemma exp_minus_i_real: "exp (- \<i> * of_real r * of_real t) = cis (- (r * t))"
  by (simp add: cis_conv_exp mult.assoc)

lemma rotation_map:
  assumes "0 < n"
  shows "[(n - 1) div 2 + 1..<n] @ [0..<(n - 1) div 2 + 1]
         = map (\<lambda>m. if m < n div 2 then m + ((n - 1) div 2 + 1) else m - n div 2) [0..<n]"
proof (rule nth_equalityI)
  have N: "(n - 1) div 2 + 1 + n div 2 = n" using assms by presburger
  show len: "length ([(n - 1) div 2 + 1..<n] @ [0..<(n - 1) div 2 + 1])
        = length (map (\<lambda>m. if m < n div 2 then m + ((n - 1) div 2 + 1) else m - n div 2) [0..<n])"
    using N by simp
  fix m assume "m < length ([(n - 1) div 2 + 1..<n] @ [0..<(n - 1) div 2 + 1])"
  then have m: "m < n" using N by simp
  show "([(n - 1) div 2 + 1..<n] @ [0..<(n - 1) div 2 + 1]) ! m
        = map (\<lambda>m. if m < n div 2 then m + ((n - 1) div 2 + 1) else m - n div 2) [0..<n] ! m"
    unfolding rotation_nth[OF m assms] using m by simp
qed

lemma rotation_bound:
  assumes "0 < (n::nat)" "m < n"
  shows "(if m < n div 2 then m + ((n - 1) div 2 + 1) else m - n div 2) < n"
proof -
  have "(n - 1) div 2 + 1 + n div 2 = n" using assms(1) by presburger
  then show ?thesis using assms(2) by auto
qed

lemma fancy_index_rotation:
  assumes "0 < n" "length a = n"
  shows "fancy_index a ([(n - 1) div 2 + 1..<n] @ [0..<(n - 1) div 2 + 1])
         = Inr (map (\<lambda>m. a ! (if m < n div 2 then m + ((n - 1) div 2 + 1) else m - n div 2))
                  [0..<n])"
proof -
  define s where "s = (\<lambda>m. if m < n div 2 then m + ((n - 1) div 2 + 1) else m - n div 2)"
  have "s m < n" if "m < n" for m
    using rotation_bound[OF assms(1) that] by (simp add: s_def)
  then have "list_all (\<lambda>i. i < length a) (map s [0..<n])"
    using assms(2) by (simp add: list_all_iff)
  then have "fancy_index a (map s [0..<n]) = Inr (map (\<lambda>m. a ! s m) [0..<n])"
    by (simp add: fancy_index_def comp_def)
  then show ?thesis
    unfolding rotation_map[OF assms(1)] s_def .
qed

lemma map2_over_upt:
  "map2 g (map a [0..<n]) (map b [0..<n]) = map (\<lambda>m. g (a m) (b m)) [0..<n]"
  by (simp add: zip_map_map zip_same_conv_map comp_def)

lemma length_fft: "length (fft a) = length a"
  by (simp add: fft_def Let_def)

lemma length_ifft: "length (ifft a) = length a"
  by (simp add: ifft_def Let_def)

lemma Fourier_on_grid:
  assumes "length iv = n" "2 \<le> n" "iv ! 1 - iv ! 0 = d" "0 < d" "length f = n"
  shows "Fourier iv f =
     Inr (map (\<lambda>m. 2 * pi * (real m - real (n div 2)) / (real n * d)) [0..<n],
          map (\<lambda>m. of_real d
                    * fft f ! (if m < n div 2 then m + ((n - 1) div 2 + 1) else m - n div 2)
                    * exp (- \<i> * of_real (2 * pi * (real m - real (n div 2)) / (real n * d))
                                * of_real (iv ! 0))) [0..<n])"
proof -
  have n: "0 < n" using assms(2) by simp
  have f: "f \<noteq> []" using assms(2,5) by auto
  have len: "\<not> length iv < 2" using assms(1,2) by simp
  show ?thesis
    unfolding Fourier_def Let_def assms(1) assms(3)
      argsort_frequencies[OF n assms(4)] sorted_frequencies[OF n assms(4)]
      fancy_index_rotation[OF n, of "fft f", unfolded length_fft, OF assms(5)]
    using f assms(2) by (simp add: map2_over_upt)
qed

lemma InverseFourier_on_grid:
  assumes "length iv = n" "2 \<le> n" "iv ! 1 - iv ! 0 = d" "0 < d" "length f = n"
  shows "InverseFourier iv f =
     Inr (map (\<lambda>m. 2 * pi * (real m - real (n div 2)) / (real n * d)) [0..<n],
          map (\<lambda>m. of_real d
                    * ifft f ! (if m < n div 2 then m + ((n - 1) div 2 + 1) else m - n div 2)
                    * exp (\<i> * of_real (2 * pi * (real m - real (n div 2)) / (real n * d))
                              * of_real (iv ! 0))) [0..<n])"
proof -
  have n: "0 < n" using assms(2) by simp
  have f: "f \<noteq> []" using assms(2,5) by auto
  show ?thesis
    unfolding InverseFourier_def Let_def assms(1) assms(3)
      argsort_frequencies[OF n assms(4)] sorted_frequencies[OF n assms(4)]
      fancy_index_rotation[OF n, of "ifft f", unfolded length_ifft, OF assms(5)]
    using f assms(2) by (simp add: map2_over_upt)
qed

lemma rotation_int:
  assumes "0 < n" "m < n"
  shows "int (if m < n div 2 then m + ((n - 1) div 2 + 1) else m - n div 2)
         = (int m - int (n div 2)) + int n * (if m < n div 2 then 1 else 0)"
proof -
  have "(n - 1) div 2 + 1 + n div 2 = n" using assms(1) by presburger
  then show ?thesis using assms(2) by (auto simp: of_nat_diff)
qed

lemma fft_rotated:
  assumes "0 < n" "m < n" "length f = n"
  shows "fft f ! (if m < n div 2 then m + ((n - 1) div 2 + 1) else m - n div 2)
         = (\<Sum>l<n. f ! l * unity_root n (- (int l * (int m - int (n div 2)))))"
proof -
  define s where "s = (if m < n div 2 then m + ((n - 1) div 2 + 1) else m - n div 2)"
  define t :: int where "t = (if m < n div 2 then 1 else 0)"
  have s: "s < n" using rotation_bound[OF assms(1,2)] by (simp add: s_def)
  have si: "int s = (int m - int (n div 2)) + int n * t"
    using rotation_int[OF assms(1,2)] by (simp add: s_def t_def)
  have "unity_root n (- (int l * int s)) = unity_root n (- (int l * (int m - int (n div 2))))" for l
  proof -
    have "- (int l * int s) = - (int l * (int m - int (n div 2))) + int n * (- (int l * t))"
      by (simp add: si algebra_simps)
    then show ?thesis by (simp only: unity_root_period[OF assms(1)])
  qed
  then show ?thesis
    using fft_nth[of s f] s assms(3) by (simp add: s_def)
qed

lemma ifft_rotated:
  assumes "0 < n" "p < n" "length A = n"
  shows "ifft A ! (if p < n div 2 then p + ((n - 1) div 2 + 1) else p - n div 2)
         = (1 / of_nat n) * (\<Sum>m<n. A ! m * unity_root n ((int p - int (n div 2)) * int m))"
proof -
  define s where "s = (if p < n div 2 then p + ((n - 1) div 2 + 1) else p - n div 2)"
  define t :: int where "t = (if p < n div 2 then 1 else 0)"
  have s: "s < n" using rotation_bound[OF assms(1,2)] by (simp add: s_def)
  have si: "int s = (int p - int (n div 2)) + int n * t"
    using rotation_int[OF assms(1,2)] by (simp add: s_def t_def)
  have "unity_root n (int s * int m) = unity_root n ((int p - int (n div 2)) * int m)" for m
  proof -
    have "int s * int m = (int p - int (n div 2)) * int m + int n * (t * int m)"
      by (simp add: si algebra_simps)
    then show ?thesis by (simp only: unity_root_period[OF assms(1)])
  qed
  then show ?thesis
    using ifft_nth[of s A] s assms(3) by (simp add: s_def)
qed

lemma cis_as_root:
  assumes "0 < n" "d \<noteq> 0"
  shows "cis (2 * pi * real_of_int a / (real n * d) * (real_of_int b * d)) = unity_root n (a * b)"
proof -
  have "2 * pi * real_of_int a / (real n * d) * (real_of_int b * d)
        = 2 * pi * real_of_int (a * b) / real n"
    using assms by (simp add: field_simps)
  then show ?thesis by (simp only: unity_root_def)
qed

lemma inner_sum:
  assumes "0 < n"
  shows "(\<Sum>m<n. unity_root n ((int m - h) * (h - l)) * unity_root n ((p - h) * int m))
         = unity_root n (- (h * (h - l))) * (if int n dvd (p - l) then of_nat n else 0)"
proof -
  have "unity_root n ((int m - h) * (h - l)) * unity_root n ((p - h) * int m)
        = unity_root n (- (h * (h - l))) * unity_root n (int m * (p - l))" for m
  proof -
    have "(int m - h) * (h - l) + (p - h) * int m = - (h * (h - l)) + int m * (p - l)"
      by (simp add: algebra_simps)
    then show ?thesis by (simp only: unity_root_add[symmetric])
  qed
  then have "(\<Sum>m<n. unity_root n ((int m - h) * (h - l)) * unity_root n ((p - h) * int m))
        = unity_root n (- (h * (h - l))) * (\<Sum>m<n. unity_root n (int m * (p - l)))"
    by (simp only: sum_distrib_left)
  then show ?thesis by (simp only: unity_root_sum[OF assms])
qed

lemma dvd_diff_small:
  assumes "p < n" "l < n"
  shows "int n dvd (int p - int l) \<longleftrightarrow> l = p"
proof
  assume "int n dvd (int p - int l)"
  moreover have "\<bar>int p - int l\<bar> < int n" using assms by linarith
  ultimately have "int p - int l = 0"
    using zdvd_not_zless[of "\<bar>int p - int l\<bar>" "int n"] by (cases "int p - int l = 0") auto
  then show "l = p" by simp
next
  assume "l = p" then show "int n dvd (int p - int l)" by simp
qed

lemma forward_entry:
  assumes "0 < n" "0 < d" "length f = n" "m < n"
  shows "of_real d
           * fft f ! (if m < n div 2 then m + ((n - 1) div 2 + 1) else m - n div 2)
           * exp (- \<i> * of_real (2 * pi * (real m - real (n div 2)) / (real n * d))
                       * of_real (- (real (n div 2) * d)))
         = of_real d * (\<Sum>l<n. f ! l * unity_root n ((int m - int (n div 2)) * (int (n div 2) - int l)))"
proof -
  have d: "d \<noteq> 0" using assms(2) by simp
  have "- (2 * pi * (real m - real (n div 2)) / (real n * d) * (- (real (n div 2) * d)))
        = 2 * pi * real_of_int (int m - int (n div 2)) / (real n * d)
            * (real_of_int (int (n div 2)) * d)"
    by simp
  then have ph: "exp (- \<i> * of_real (2 * pi * (real m - real (n div 2)) / (real n * d))
                       * of_real (- (real (n div 2) * d)))
        = unity_root n ((int m - int (n div 2)) * int (n div 2))"
    unfolding exp_minus_i_real by (simp only: cis_as_root[OF assms(1) d])
  have "(\<Sum>l<n. f ! l * unity_root n (- (int l * (int m - int (n div 2)))))
          * unity_root n ((int m - int (n div 2)) * int (n div 2))
        = (\<Sum>l<n. f ! l * unity_root n ((int m - int (n div 2)) * (int (n div 2) - int l)))"
  proof -
    have "unity_root n (- (int l * (int m - int (n div 2)))) * unity_root n ((int m - int (n div 2)) * int (n div 2))
          = unity_root n ((int m - int (n div 2)) * (int (n div 2) - int l))" for l
    proof -
      have "- (int l * (int m - int (n div 2))) + (int m - int (n div 2)) * int (n div 2)
            = (int m - int (n div 2)) * (int (n div 2) - int l)"
        by (simp add: algebra_simps)
      then show ?thesis by (simp only: unity_root_add[symmetric])
    qed
    then show ?thesis by (simp add: sum_distrib_right mult.assoc)
  qed
  then show ?thesis
    unfolding ph fft_rotated[OF assms(1,4,3)] by (simp only: mult.assoc)
qed

lemma backward_entry:
  assumes "0 < n" "length f = n" "p < n"
  shows "(\<Sum>m<n. (of_real d * (\<Sum>l<n. f ! l * unity_root n ((int m - int (n div 2)) * (int (n div 2) - int l))))
               * unity_root n ((int p - int (n div 2)) * int m))
         = of_real d * of_nat n * (f ! p * unity_root n (- (int (n div 2) * (int (n div 2) - int p))))"
proof -
  let ?h = "int (n div 2)"
  have "(\<Sum>m<n. (of_real d * (\<Sum>l<n. f ! l * unity_root n ((int m - ?h) * (?h - int l))))
               * unity_root n ((int p - ?h) * int m))
        = (\<Sum>m<n. \<Sum>l<n. of_real d * f ! l
               * (unity_root n ((int m - ?h) * (?h - int l)) * unity_root n ((int p - ?h) * int m)))"
    by (simp add: sum_distrib_left sum_distrib_right mult.assoc)
  also have "\<dots> = (\<Sum>l<n. \<Sum>m<n. of_real d * f ! l
               * (unity_root n ((int m - ?h) * (?h - int l)) * unity_root n ((int p - ?h) * int m)))"
    by (rule sum.swap)
  also have "\<dots> = (\<Sum>l<n. of_real d * f ! l
               * (unity_root n (- (?h * (?h - int l)))
                  * (if int n dvd (int p - int l) then of_nat n else 0)))"
    by (simp only: sum_distrib_left[symmetric] inner_sum[OF assms(1)])
  also have "\<dots> = (\<Sum>l<n. if l = p
                 then of_real d * f ! l * (unity_root n (- (?h * (?h - int l))) * of_nat n) else 0)"
    by (rule sum.cong) (simp_all add: dvd_diff_small[OF assms(3)])
  also have "\<dots> = of_real d * f ! p * (unity_root n (- (?h * (?h - int p))) * of_nat n)"
    using assms(3) by (simp add: sum.delta)
  finally show ?thesis by (simp add: mult_ac)
qed

lemma centred_grid_facts:
  assumes "2 \<le> n"
  shows "length (centred_grid n d) = n"
    and "centred_grid n d ! 0 = - (real (n div 2) * d)"
    and "centred_grid n d ! 1 - centred_grid n d ! 0 = d"
  using assms by (simp_all add: centred_grid_def algebra_simps)

lemma dual_grid_facts:
  assumes "2 \<le> n" "0 < d"
  defines "rv \<equiv> map (\<lambda>m. 2 * pi * (real m - real (n div 2)) / (real n * d)) [0..<n]"
  shows "length rv = n"
    and "rv ! 0 = - (real (n div 2) * (2 * pi / (real n * d)))"
    and "rv ! 1 - rv ! 0 = 2 * pi / (real n * d)"
    and "0 < 2 * pi / (real n * d)"
proof -
  show "length rv = n" by (simp add: rv_def)
  show "rv ! 0 = - (real (n div 2) * (2 * pi / (real n * d)))"
    using assms(1) by (simp add: rv_def)
  have "2 * pi * (real 1 - real (n div 2)) / (real n * d)
          - 2 * pi * (real 0 - real (n div 2)) / (real n * d) = 2 * pi / (real n * d)"
    by (simp only: diff_divide_distrib[symmetric] right_diff_distrib[symmetric]) simp
  then show "rv ! 1 - rv ! 0 = 2 * pi / (real n * d)"
    using assms(1) by (simp add: rv_def)
  show "0 < 2 * pi / (real n * d)" using assms(1,2) by simp
qed

lemma dual_of_dual:
  assumes "2 \<le> n" "0 < d"
  shows "map (\<lambda>m. 2 * pi * (real m - real (n div 2)) / (real n * (2 * pi / (real n * d)))) [0..<n]
         = centred_grid n d"
proof -
  have "2 * pi * x / (real n * (2 * pi / (real n * d))) = x * d" for x
    using assms by (simp add: field_simps)
  then show ?thesis by (simp add: centred_grid_def)
qed

text \<open>
  On a grid of \<open>n \<ge> 2\<close> samples with positive spacing whose sample \<open>n div 2\<close> is the origin,
  Fourier followed by InverseFourier returns that same grid and the sequence multiplied
  by \<open>2\<pi>/n\<close>: the two phase corrections cancel, and the two spacing factors together with
  the \<open>1/n\<close> of the inverse discrete transform leave \<open>2\<pi>/n\<close>.
\<close>

lemma round_trip_centred_grid:
  assumes "2 \<le> n" "0 < d" "length f = n"
  shows "round_trip (centred_grid n d) f
         = Inr (centred_grid n d, map (\<lambda>z. of_real (2 * pi / real n) * z) f)"
proof -
  define h where "h = n div 2"
  define d' where "d' = 2 * pi / (real n * d)"
  define rv where "rv = map (\<lambda>m. 2 * pi * (real m - real (n div 2)) / (real n * d)) [0..<n]"
  define F where "F = map (\<lambda>m. of_real d
          * (\<Sum>l<n. f ! l * unity_root n ((int m - int (n div 2)) * (int (n div 2) - int l)))) [0..<n]"
  have n: "0 < n" using assms(1) by simp
  have d'pos: "0 < d'" using dual_grid_facts(4)[OF assms(1,2)] by (simp add: d'_def)
  have d'ne: "d' \<noteq> 0" using d'pos by simp
  have lenF: "length F = n" by (simp add: F_def)
  have Fmap: "map (\<lambda>m. of_real d
                    * fft f ! (if m < n div 2 then m + ((n - 1) div 2 + 1) else m - n div 2)
                    * exp (- \<i> * of_real (2 * pi * (real m - real (n div 2)) / (real n * d))
                                * of_real (- (real (n div 2) * d)))) [0..<n] = F"
    unfolding F_def
  proof (rule map_cong[OF refl])
    fix m assume "m \<in> set [0..<n]"
    then have "m < n" by simp
    then show "of_real d
                 * fft f ! (if m < n div 2 then m + ((n - 1) div 2 + 1) else m - n div 2)
                 * exp (- \<i> * of_real (2 * pi * (real m - real (n div 2)) / (real n * d))
                             * of_real (- (real (n div 2) * d)))
          = of_real d * (\<Sum>l<n. f ! l * unity_root n ((int m - int (n div 2)) * (int (n div 2) - int l)))"
      by (rule forward_entry[OF n assms(2,3)])
  qed
  have forward: "Fourier (centred_grid n d) f = Inr (rv, F)"
    unfolding Fourier_on_grid[OF centred_grid_facts(1)[OF assms(1)] assms(1)
                centred_grid_facts(3)[OF assms(1)] assms(2,3)]
      centred_grid_facts(2)[OF assms(1)] Fmap rv_def[symmetric] ..
  have entry: "of_real d'
           * ifft F ! (if p < n div 2 then p + ((n - 1) div 2 + 1) else p - n div 2)
           * exp (\<i> * of_real (2 * pi * (real p - real (n div 2)) / (real n * d'))
                     * of_real (- (real (n div 2) * d')))
         = of_real (2 * pi / real n) * f ! p" if p: "p < n" for p
  proof -
    have "2 * pi * (real p - real (n div 2)) / (real n * d') * (- (real (n div 2) * d'))
          = 2 * pi * real_of_int (int p - int (n div 2)) / (real n * d')
              * (real_of_int (- int (n div 2)) * d')"
      by simp
    then have ph: "exp (\<i> * of_real (2 * pi * (real p - real (n div 2)) / (real n * d'))
                     * of_real (- (real (n div 2) * d')))
          = unity_root n ((int p - int (n div 2)) * (- int (n div 2)))"
      unfolding exp_i_real by (simp only: cis_as_root[OF n d'ne])
    have Fm: "(\<Sum>m<n. F ! m * unity_root n ((int p - int (n div 2)) * int m))
          = (\<Sum>m<n. (of_real d * (\<Sum>l<n. f ! l * unity_root n ((int m - int (n div 2)) * (int (n div 2) - int l))))
               * unity_root n ((int p - int (n div 2)) * int m))"
      by (rule sum.cong) (simp_all add: F_def)
    have inv: "ifft F ! (if p < n div 2 then p + ((n - 1) div 2 + 1) else p - n div 2)
          = of_real d * (f ! p * unity_root n (- (int (n div 2) * (int (n div 2) - int p))))"
      unfolding ifft_rotated[OF n p lenF] Fm backward_entry[OF n assms(3) p]
      using n by simp
    have "unity_root n (- (int (n div 2) * (int (n div 2) - int p)))
            * unity_root n ((int p - int (n div 2)) * (- int (n div 2))) = 1"
    proof -
      have "- (int (n div 2) * (int (n div 2) - int p))
              + (int p - int (n div 2)) * (- int (n div 2)) = 0"
        by (simp add: algebra_simps)
      then show ?thesis by (simp only: unity_root_add[symmetric] unity_root_0)
    qed
    then have "of_real d' * (of_real d * (f ! p * unity_root n (- (int (n div 2) * (int (n div 2) - int p)))))
           * unity_root n ((int p - int (n div 2)) * (- int (n div 2)))
         = of_real d' * of_real d * f ! p"
      by (simp add: mult.assoc)
    moreover have "d' * d = 2 * pi / real n" using assms(2) n by (simp add: d'_def)
    then have "(of_real d' :: complex) * of_real d = of_real (2 * pi / real n)"
      by (metis of_real_mult)
    ultimately show ?thesis unfolding ph inv by simp
  qed
  have rv0: "rv ! 0 = - (real (n div 2) * d')"
    using dual_grid_facts(2)[OF assms(1,2)] by (simp add: rv_def d'_def)
  have rv1: "rv ! 1 - rv ! 0 = d'"
    using dual_grid_facts(3)[OF assms(1,2)] by (simp add: rv_def d'_def)
  have lenrv: "length rv = n" by (simp add: rv_def)
  have "map (\<lambda>p. of_real (2 * pi / real n) * f ! p) [0..<n]
        = map (\<lambda>z. of_real (2 * pi / real n) * z) (map (\<lambda>p. f ! p) [0..<n])"
    by (simp add: comp_def)
  also have "\<dots> = map (\<lambda>z. of_real (2 * pi / real n) * z) f"
    using map_nth[of f] assms(3) by simp
  finally have out: "map (\<lambda>p. of_real (2 * pi / real n) * f ! p) [0..<n]
        = map (\<lambda>z. of_real (2 * pi / real n) * z) f" .
  have Imap: "map (\<lambda>p. of_real d'
           * ifft F ! (if p < n div 2 then p + ((n - 1) div 2 + 1) else p - n div 2)
           * exp (\<i> * of_real (2 * pi * (real p - real (n div 2)) / (real n * d'))
                     * of_real (- (real (n div 2) * d')))) [0..<n]
        = map (\<lambda>p. of_real (2 * pi / real n) * f ! p) [0..<n]"
  proof (rule map_cong[OF refl])
    fix p assume "p \<in> set [0..<n]"
    then have "p < n" by simp
    then show "of_real d'
           * ifft F ! (if p < n div 2 then p + ((n - 1) div 2 + 1) else p - n div 2)
           * exp (\<i> * of_real (2 * pi * (real p - real (n div 2)) / (real n * d'))
                     * of_real (- (real (n div 2) * d')))
         = of_real (2 * pi / real n) * f ! p"
      by (rule entry)
  qed
  have grid: "map (\<lambda>m. 2 * pi * (real m - real (n div 2)) / (real n * d')) [0..<n]
        = centred_grid n d"
    unfolding d'_def by (rule dual_of_dual[OF assms(1,2)])
  have backward: "InverseFourier rv F
        = Inr (centred_grid n d, map (\<lambda>z. of_real (2 * pi / real n) * z) f)"
    unfolding InverseFourier_on_grid[OF lenrv assms(1) rv1 d'pos lenF] rv0 Imap grid out ..
  show ?thesis by (simp add: round_trip_def forward backward)
qed

text \<open>
  InverseFourier returns its samples on the grid centred on the origin, wherever the
  grid given to Fourier started: from \<open>[0, 1]\<close> the sequence \<open>[1, 0]\<close> comes back on
  \<open>[-1, 0]\<close>, as \<open>[0, \<pi>]\<close>.
\<close>

lemma round_trip_off_centre:
  "round_trip [0, 1] [1, 0] = Inr ([- 1, 0], [0, of_real pi])
   \<and> \<not> cmod (0 - 1) \<le> 1 / 10 ^ 9 * cmod 1"
  by (simp add: round_trip_def Fourier_example InverseFourier_example)


subsection \<open>Claims\<close>

text \<open>
  C1: the round trip does not reproduce \<open>f\<close>. On the grid \<open>[-1, 0]\<close>, whose sample \<open>n div 2\<close>
  is the origin, the sequence \<open>[1, 0]\<close> comes back on the same grid as \<open>[\<pi>, 0]\<close>, that is
  \<open>f\<close> times \<open>2\<pi>/n\<close>: the phase corrections cancel, the scalings do not. The first entry
  is far outside a relative tolerance of \<open>10\<^sup>-\<^sup>9\<close>.
\<close>

theorem round_trip_scales_f:
  "round_trip [- 1, 0] [1, 0] = Inr ([- 1, 0], [of_real pi, 0])
   \<and> \<not> cmod (of_real pi - 1) \<le> 1 / 10 ^ 9 * cmod 1"
proof -
  have g: "centred_grid 2 1 = [- 1, 0]"
    by (simp add: centred_grid_def upt_rec numeral_2_eq_2)
  have rt: "round_trip [- 1, 0] [1, 0] = Inr ([- 1, 0], [of_real pi, 0])"
    using round_trip_centred_grid [of 2 1 "[1, 0]"] by (simp add: g)
  have "of_real pi - (1::complex) = of_real (pi - 1)" by simp
  then have "cmod (of_real pi - 1) = \<bar>pi - 1\<bar>" by (simp only: norm_of_real)
  moreover have "1 \<le> pi - 1" using pi_ge_two by simp
  ultimately have "\<not> cmod (of_real pi - 1) \<le> 1 / 10 ^ 9 * cmod 1" by simp
  with rt show ?thesis by simp
qed

text \<open>
  C3. For frequencies and configuration coordinates of equal length, \<open>PartialHR\<close> returns,
  mode by mode, \<open>2 * pi * f * q\<^sup>2 * 0.166 / (2 * 1.05457)\<close>; a mode whose coordinate is zero
  and a mode whose frequency is zero both get the factor zero.
\<close>

theorem PartialHR_formula:
  assumes "length freqs = length qk"
  shows "\<exists>Sk. PartialHR freqs qk = Inr Sk \<and> length Sk = length qk \<and>
           (\<forall>k < length qk.
              Sk ! k = 2 * pi * (freqs ! k) * (qk ! k)\<^sup>2 * 0.166 / (2 * 1.05457) \<and>
              (qk ! k = 0 \<longrightarrow> Sk ! k = 0) \<and> (freqs ! k = 0 \<longrightarrow> Sk ! k = 0))"
  using assms by (simp add: PartialHR_def broadcast2_def HR_factor_def)

theorem PartialHR_formula_witness:
  "length [2, 0::real] = length [3, 5::real] \<and> PartialHR [2, 0] [3, 5] = Inr [2 * pi * 2 * 3\<^sup>2 * 0.166 / (2 * 1.05457), 0]"
  using PartialHR_formula [of "[2, 0]" "[3, 5]"]
  by (auto simp: nth_Cons' less_Suc_eq list_eq_iff_nth_eq all_conj_distrib)




text \<open>
  C5, as stated, does not hold: with a negative \<open>rv_high\<close>, or with \<open>iv_high\<close> below
  \<open>iv_low\<close>, \<open>IV\<close> returns the empty grid and raises nothing.
\<close>

theorem IV_no_validation_counterexample:
  "IV 0 1 (- 1) = Inr [] \<and> IV 1 0 1 = Inr []"
proof -
  have "arange 0 1 ((2 * pi) / (2 * (- 1))) = []" by (rule arange_empty) simp
  moreover have "arange 1 0 ((2 * pi) / (2 * 1)) = []" by (rule arange_empty) simp
  ultimately show ?thesis by (simp add: IV_def)
qed

text \<open>
  C5, amended. \<open>IV\<close> raises exactly when \<open>rv_high\<close> is zero (the division by zero). For a
  positive \<open>rv_high\<close> with \<open>iv_high \<le> iv_low\<close>, and for a negative \<open>rv_high\<close> with
  \<open>iv_low \<le> iv_high\<close>, it returns the empty grid.
\<close>

theorem IV_failure_cases:
  "((\<exists>e. IV iv_low iv_high rv_high = Inl e) \<longleftrightarrow> rv_high = 0) \<and>
   (0 < rv_high \<and> iv_high \<le> iv_low \<longrightarrow> IV iv_low iv_high rv_high = Inr []) \<and>
   (rv_high < 0 \<and> iv_low \<le> iv_high \<longrightarrow> IV iv_low iv_high rv_high = Inr [])"
proof (intro conjI impI)
  show "(\<exists>e. IV iv_low iv_high rv_high = Inl e) \<longleftrightarrow> rv_high = 0"
    by (simp add: IV_def)
next
  assume a: "0 < rv_high \<and> iv_high \<le> iv_low"
  then have "(iv_high - iv_low) / ((2 * pi) / (2 * rv_high)) \<le> 0"
    by (intro divide_nonpos_pos) simp_all
  then show "IV iv_low iv_high rv_high = Inr []"
    using a arange_empty by (simp add: IV_def del: times_divide_eq_right divide_divide_eq_right)
next
  assume a: "rv_high < 0 \<and> iv_low \<le> iv_high"
  then have "(iv_high - iv_low) / ((2 * pi) / (2 * rv_high)) \<le> 0"
    by (intro divide_nonneg_neg) (simp_all add: divide_neg_neg divide_pos_neg)
  then show "IV iv_low iv_high rv_high = Inr []"
    using a arange_empty by (simp add: IV_def del: times_divide_eq_right divide_divide_eq_right)
qed

theorem IV_failure_cases_witness:
  "(\<exists>e. IV 0 1 0 = Inl e) \<and> IV 3 2 1 = Inr [] \<and> IV 2 3 (- 1) = Inr []"
  using IV_failure_cases [of 0 1 0] IV_failure_cases [of 3 2 1] IV_failure_cases [of 2 3 "- 1"]
  by simp

text \<open>
  C2. When \<open>A_E\<close> and \<open>E_meV\<close> have the same length, at least two energies lie in the
  window \<open>[zpl - 500, zpl + 100]\<close> and the \<open>Trapezoidal\<close> integral \<open>T\<close> of the
  \<open>E\<^sup>3\<close>-weighted restricted spectrum is not zero, \<open>LuminescenceIntensity\<close> returns the
  restricted grid with the weighted curve divided by \<open>T\<close>, and the \<open>Trapezoidal\<close> integral
  of that result over the restricted grid is exactly 1.
\<close>

theorem LuminescenceIntensity_normalized:
  fixes A_E :: "'a::real_normed_field list"
  assumes "length A_E = length E_meV"
    and "2 \<le> length (window_E E_meV zpl)"
    and "Trapezoidal (weighted (window_E E_meV zpl) (window_A E_meV A_E zpl))
           (window_E E_meV zpl) True \<noteq> Inr 0"
  shows "\<exists>T L_E. Trapezoidal (weighted (window_E E_meV zpl) (window_A E_meV A_E zpl))
                     (window_E E_meV zpl) True = Inr T
           \<and> LuminescenceIntensity E_meV A_E zpl = Inr (window_E E_meV zpl, L_E)
           \<and> L_E = map (\<lambda>x. x / T) (weighted (window_E E_meV zpl) (window_A E_meV A_E zpl))
           \<and> Trapezoidal L_E (window_E E_meV zpl) True = Inr 1"
proof -
  define E' where "E' = window_E E_meV zpl"
  define w where "w = weighted E' (window_A E_meV A_E zpl)"
  have "length (window_A E_meV A_E zpl) = length E'"
    using window_lengths[OF assms(1)] by (simp add: E'_def)
  then have "length w = length E'" by (simp add: w_def weighted_def)
  then have "w \<noteq> []" using assms(2) by (auto simp: E'_def)
  then obtain T where T: "Trapezoidal w E' True = Inr T"
    using assms(2) by (auto simp: Trapezoidal_def Let_def E'_def)
  with assms(3) have T0: "T \<noteq> 0" by (simp add: w_def E'_def)
  have L: "LuminescenceIntensity E_meV A_E zpl = Inr (E', map (\<lambda>x. x / T) w)"
    using assms(1) T by (simp add: LuminescenceIntensity_def Let_def w_def E'_def)
  have "Trapezoidal (map (\<lambda>x. x / T) w) E' True = Inr 1"
    using Trapezoidal_divide[OF T, of T] T0 by simp
  with T L show ?thesis unfolding w_def E'_def by blast
qed

theorem LuminescenceIntensity_normalized_witness:
  "length [1, 2, 4, 8 :: complex] = length [- 600, 1, 2, 200 :: real]
   \<and> 2 \<le> length (window_E [- 600, 1, 2, 200] 0)
   \<and> Trapezoidal (weighted (window_E [- 600, 1, 2, 200] 0)
                    (window_A [- 600, 1, 2, 200] [1, 2, 4, 8 :: complex] 0))
         (window_E [- 600, 1, 2, 200] 0) True = Inr 17
   \<and> LuminescenceIntensity [- 600, 1, 2, 200] [1, 2, 4, 8 :: complex] 0
         = Inr ([1, 2], [2 / 17, 32 / 17])
   \<and> Trapezoidal [2 / 17, 32 / 17 :: complex] [1, 2] True = Inr 1"
proof -
  have E: "window_E [- 600, 1, 2, 200] 0 = [1, 2]"
    by (simp add: window_E_def in_window_def)
  have A: "window_A [- 600, 1, 2, 200] [1, 2, 4, 8 :: complex] 0 = [2, 4]"
    by (simp add: window_A_def in_window_def)
  have w: "weighted [1, 2] [2, 4 :: complex] = [2, 32]"
    by (simp add: weighted_def scaleR_conv_of_real)
  have T: "Trapezoidal [2, 32 :: complex] [1, 2] True = Inr 17"
    by (simp add: Trapezoidal_def scaleR_conv_of_real)
  show ?thesis
    using LuminescenceIntensity_normalized [of "[1, 2, 4, 8 :: complex]" "[- 600, 1, 2, 200]" 0]
    by (simp add: E A w T)
qed

text \<open>
  C6, as stated, does not hold. One mass against two displacement rows and two atoms per
  mode is broadcast, and two masses against three displacement rows lose the third row:
  both calls return a value and raise nothing.
\<close>

theorem ConfigCoordinates_silent_mismatch:
  "ConfigCoordinates [1] [(1, 0, 0), (0, 0, 0)] [(0, 0, 0), (0, 0, 0)]
       [[(1, 0, 0), (1, 0, 0)]] = Inr [2]
   \<and> ConfigCoordinates [1, 1] [(1, 0, 0), (0, 1, 0), (5, 5, 5)] [(0, 0, 0), (0, 0, 0), (0, 0, 0)]
       [[(1, 0, 0), (0, 1, 0)]] = Inr [2]"
  by (simp add: ConfigCoordinates_def broadcast2_def project_def upt_rec)

text \<open>
  C6, amended. For two geometries of the same shape and at least one mode, every mode
  block having \<open>A\<close> atoms: \<open>ConfigCoordinates\<close> raises IndexError when there are more masses
  than displacement rows; otherwise it raises ValueError when \<open>masses\<close> is empty or its
  length differs from \<open>A\<close> with neither of the two being 1; and in every remaining case
  (fewer masses than displacement rows among them, and a length of 1 on either side) it
  returns one coordinate per mode.
\<close>

theorem ConfigCoordinates_failure_cases:
  assumes same_shape: "length R_es = length R_gs"
    and some_mode: "modes \<noteq> []"
    and rectangular: "\<forall>b \<in> set modes. length b = A"
  shows "(length R_es < length masses \<longrightarrow>
            ConfigCoordinates masses R_es R_gs modes = Inl IndexError)
       \<and> (length masses \<le> length R_es
            \<and> (masses = [] \<or> (length masses \<noteq> A \<and> length masses \<noteq> 1 \<and> A \<noteq> 1)) \<longrightarrow>
            ConfigCoordinates masses R_es R_gs modes = Inl ValueError)
       \<and> (length masses \<le> length R_es
            \<and> masses \<noteq> [] \<and> (length masses = A \<or> length masses = 1 \<or> A = 1) \<longrightarrow>
            (\<exists>qk. ConfigCoordinates masses R_es R_gs modes = Inr qk
                   \<and> length qk = length modes))"
proof -
  define R_diff where "R_diff = map2 vsub R_es R_gs"
  define mR where
    "mR = map (\<lambda>i. vscale (map sqrt masses ! i) (R_diff ! i)) [0..<length (map sqrt masses)]"
  have bc: "broadcast2 vsub R_es R_gs = Inr R_diff"
    using same_shape by (simp add: broadcast2_def R_diff_def)
  have lenR: "length R_diff = length R_es" using same_shape by (simp add: R_diff_def)
  have lenM: "length mR = length masses" by (simp add: mR_def)
  have too_long: "ConfigCoordinates masses R_es R_gs modes = Inl IndexError"
    if "length R_es < length masses"
    using that bc lenR by (simp add: ConfigCoordinates_def Let_def)
  have run: "ConfigCoordinates masses R_es R_gs modes = collect (map (project mR) modes)"
    if "length masses \<le> length R_es"
    using that bc lenR by (simp add: ConfigCoordinates_def Let_def mR_def)
  have bad: "collect (map (project mR) modes) = Inl ValueError"
    if "masses = [] \<or> (length masses \<noteq> A \<and> length masses \<noteq> 1 \<and> A \<noteq> 1)"
  proof (rule collect_first_Inl)
    show "map (project mR) modes \<noteq> []" using some_mode by simp
    have "hd modes \<in> set modes" using some_mode by simp
    then have "length (hd modes) = A" using rectangular by blast
    then have "project mR (hd modes) = Inl ValueError"
      using that lenM by (auto simp: project_cases)
    then show "hd (map (project mR) modes) = Inl ValueError"
      using some_mode by (simp add: hd_map)
  qed
  have good: "\<exists>qk. collect (map (project mR) modes) = Inr qk \<and> length qk = length modes"
    if "masses \<noteq> []" "length masses = A \<or> length masses = 1 \<or> A = 1"
  proof -
    have "\<forall>r \<in> set (map (project mR) modes). \<exists>v. r = Inr v"
    proof
      fix r assume "r \<in> set (map (project mR) modes)"
      then obtain b where b: "b \<in> set modes" "r = project mR b" by auto
      then have "length b = A" using rectangular by blast
      then show "\<exists>v. r = Inr v" using that lenM b(2) by (auto simp: project_cases)
    qed
    from collect_all_Inr[OF this] show ?thesis by simp
  qed
  show ?thesis using too_long run bad good by auto
qed

theorem ConfigCoordinates_failure_cases_witness:
  "ConfigCoordinates [1, 1] [(1, 0, 0)] [(0, 0, 0)] [[(1, 0, 0)]] = Inl IndexError
   \<and> ConfigCoordinates [1, 1] [(1, 0, 0), (0, 1, 0)] [(0, 0, 0), (0, 0, 0)]
        [[(1, 0, 0), (0, 1, 0), (0, 0, 1)]] = Inl ValueError
   \<and> (\<exists>qk. ConfigCoordinates [1] [(1, 0, 0), (0, 1, 0)] [(0, 0, 0), (0, 0, 0)]
        [[(1, 0, 0), (0, 1, 0)]] = Inr qk \<and> length qk = 1)"
  using ConfigCoordinates_failure_cases
          [of "[(1, 0, 0)]" "[(0, 0, 0)]" "[[(1, 0, 0)]]" 1 "[1, 1]"]
        ConfigCoordinates_failure_cases
          [of "[(1, 0, 0), (0, 1, 0)]" "[(0, 0, 0), (0, 0, 0)]"
              "[[(1, 0, 0), (0, 1, 0), (0, 0, 1)]]" 3 "[1, 1]"]
        ConfigCoordinates_failure_cases
          [of "[(1, 0, 0), (0, 1, 0)]" "[(0, 0, 0), (0, 0, 0)]"
              "[[(1, 0, 0), (0, 1, 0)]]" 2 "[1]"]
  by simp

text \<open>
  C7. \<open>CalculateSpectrum\<close> hands on only the first \<open>n div 2\<close> of the \<open>n\<close> loaded
  frequencies and the first \<open>m div 2\<close> of the \<open>m\<close> loaded eigenvector blocks:
  \<open>FreqToEnergy\<close>, \<open>ConfigCoordinates\<close> and \<open>PartialHR\<close> receive these prefixes, and
  \<open>ConfigCoordinates\<close> receives the masses as loaded.
\<close>

theorem CalculateSpectrum_keeps_first_half:
  "CalculateSpectrum_HR masses freqs modes R_es R_gs =
     (case ConfigCoordinates masses R_es R_gs (take (length modes div 2) modes) of
        Inl e \<Rightarrow> Inl e
      | Inr qk \<Rightarrow>
          (case PartialHR (take (length freqs div 2) freqs) qk of
             Inl e \<Rightarrow> Inl e
           | Inr Sk \<Rightarrow> Inr (FreqToEnergy (take (length freqs div 2) freqs), qk, Sk)))"
  by (simp add: CalculateSpectrum_HR_def Let_def py_int_half)

text \<open>
  C8: on three equally spaced points of \<open>[0, 2]\<close> the constant 1 is integrated to \<open>3/2\<close> by
  the equally spaced branch, not to \<open>1 * (2 - 0)\<close>: the interior sum is not doubled.
\<close>

theorem Trapezoidal_constant_three_points:
  "Trapezoidal (replicate 3 (1::real)) (uniform_grid 0 2 3) True = Inr (3 / 2)
   \<and> (3 / 2 :: real) \<noteq> 1 * (2 - 0)"
  by (simp add: Trapezoidal_def uniform_grid_def numeral_3_eq_3 upt_rec)

text \<open>
  C10: on the same uniform grid the two branches of \<open>Trapezoidal\<close> return different values.
\<close>

theorem Trapezoidal_branches_differ:
  "Trapezoidal [1, 1, 1 :: real] [0, 1, 2] True = Inr (3 / 2)
   \<and> Trapezoidal [1, 1, 1 :: real] [0, 1, 2] False = Inr 2"
  by (simp add: Trapezoidal_def upt_rec)

text \<open>
  C9. Converting a time with \<open>reverse = False\<close> and converting the result back with
  \<open>reverse = True\<close> returns the time one started from, for every real time: one direction
  divides by 658.2119 and the other multiplies by it.
\<close>

theorem TimeScaling_round_trip: "TimeScaling (TimeScaling t False) True = t"
  by (simp add: TimeScaling_def)

end
